theory Spec2Isabelle
  imports Complex_Main "HOL-Library.AList" "HOL-Library.Log_Nat"
begin

section \<open>Python floats\<close>

text \<open>
  A Python float is held as the rational number it denotes. An arithmetic operation on
  floats gives the float nearest to its exact result, a tie going to the even
  significand: \<open>fl\<close> rounds a rational to the 53 significant bits of a binary64
  number, with the fixed spacing of the subnormal numbers below \<open>2 powi (- 1022)\<close>.
  Overflow to infinity is left out: no quantity of \<^verbatim>\<open>main.py\<close> comes near it.
\<close>

text \<open>The nearest integer, a tie going to the even neighbour.\<close>

definition round_half_even :: "rat \<Rightarrow> int" where
  "round_half_even x =
     (let f = \<lfloor>x\<rfloor>; r = x - of_int f
      in if r < 1 / 2 then f
         else if 1 / 2 < r then f + 1
         else if even f then f else f + 1)"

text \<open>The binary exponent of a positive rational: the whole part of its logarithm to base 2.\<close>

definition ilog2 :: "rat \<Rightarrow> int" where
  "ilog2 x =
     (case quotient_of x of (p, q) \<Rightarrow>
        (let e = bitlen p - bitlen q in if 2 powi e \<le> x then e else e - 1))"

definition fl :: "rat \<Rightarrow> rat" where
  "fl x =
     (if x = 0 then 0
      else (let q = 2 powi (max (ilog2 \<bar>x\<bar>) (- 1022) - 52)
            in of_int (round_half_even (x / q)) * q))"

section \<open>Formatting primitives of the Python runtime\<close>

fun decimal :: "nat \<Rightarrow> string" where
  "decimal n =
     (if n < 10 then [''0123456789'' ! n]
      else decimal (n div 10) @ [''0123456789'' ! (n mod 10)])"

declare decimal.simps [simp del]

text \<open>
  The format specification \<^verbatim>\<open>:.0f\<close>: the nearest integer, a tie going to the even
  neighbour (Python formats the exact value of the float, half to even), printed with a
  minus sign for a negative argument.
\<close>

definition fmt_0f :: "rat \<Rightarrow> string" where
  "fmt_0f x = (if x < 0 then ''-'' else []) @ decimal (nat \<bar>round_half_even x\<bar>)"

section \<open>The position collaborator\<close>

text \<open>An \<^verbatim>\<open>Angle\<close> of the position provider, held as its decimal degrees.\<close>

type_synonym angle = rat

text \<open>
  Modelled from the spec: \<^verbatim>\<open>Angle.signed_dms\<close> belongs to the position provider and
  is not part of \<^verbatim>\<open>main.py\<close>. It decomposes an angle into its sign and the unsigned
  magnitude as whole degrees, whole minutes in 0..59 and seconds in [0, 60), exact to
  floating precision: the magnitude in seconds of arc is one float product
  (\<open>signed_dms\<close>), and splitting it into degrees, minutes and seconds loses nothing
  (\<open>sexagesimal\<close>).
\<close>

fun sexagesimal :: "rat \<Rightarrow> rat \<Rightarrow> rat \<times> rat \<times> rat \<times> rat" where
  "sexagesimal sign arcseconds =
     (let total_minutes = \<lfloor>arcseconds / 60\<rfloor>;
          seconds = arcseconds - 60 * of_int total_minutes;
          units = total_minutes div 60;
          minutes = total_minutes mod 60
      in (sign, of_int units, of_int minutes, seconds))"

definition signed_dms :: "angle \<Rightarrow> rat \<times> rat \<times> rat \<times> rat" where
  "signed_dms a = sexagesimal (sgn a) (fl (\<bar>a\<bar> * 3600))"

section \<open>\<^verbatim>\<open>convert\<close>\<close>

text \<open>Lines 39 and 40, on the four numbers line 38 has obtained.\<close>

fun exif_rationals :: "rat \<times> rat \<times> rat \<times> rat \<Rightarrow> bool \<times> string" where
  "exif_rationals (sign, degrees, minutes, seconds) =
     (sign < 0,
      fmt_0f degrees @ ''/1,'' @ fmt_0f minutes @ ''/1,'' @ fmt_0f (fl (seconds * 10)) @ ''/10'')"

definition convert :: "angle \<Rightarrow> bool \<times> string" where
  "convert a = exif_rationals (signed_dms a)"

section \<open>Exceptions and the outside world\<close>

text \<open>
  A raised Python exception: the name of its class and its message
  (\<^verbatim>\<open>e.__class__.__name__\<close> and \<^verbatim>\<open>str(e)\<close>). \<open>Exn\<close> is an instance of
  \<^verbatim>\<open>Exception\<close>; \<open>BaseExn\<close> is an instance of \<^verbatim>\<open>BaseException\<close> outside
  \<^verbatim>\<open>Exception\<close>, such as \<^verbatim>\<open>KeyboardInterrupt\<close> and \<^verbatim>\<open>SystemExit\<close>.
\<close>

datatype exn =
  is_Exception: Exn (kind: string) (message: string)
| BaseExn (kind: string) (message: string)

text \<open>
  What the collaborators answer during one pass through the loop body, in the order the
  body asks: each call either raises or returns. Times are microseconds.
\<close>

record cycle_env =
  get_compass_raw :: "exn + rat \<times> rat \<times> rat"
  get_orientation :: "exn + rat \<times> rat \<times> rat"
  get_accelerometer_raw :: "exn + rat \<times> rat \<times> rat"
  sense_humidity :: "exn + rat"
  sense_temperature :: "exn + rat"
  coordinates_loop :: "exn + angle \<times> angle"
  datetime_now_row :: int
  csv_write :: "exn option"
  coordinates_capture :: "exn + angle \<times> angle"
  camera_capture :: "exn option"
  stat_st_size :: "exn + nat"
  datetime_now_refresh :: int

definition bind_exn :: "exn + 'a \<Rightarrow> ('a \<Rightarrow> exn + 'b) \<Rightarrow> exn + 'b" where
  "bind_exn r f = (case r of Inl e \<Rightarrow> Inl e | Inr v \<Rightarrow> f v)"

section \<open>The CSV file\<close>

record csv_row =
  row_counter :: int
  row_time :: int
  row_latitude :: rat
  row_longitude :: rat
  row_temperature :: rat
  row_humidity :: rat
  row_mag_x :: rat
  row_mag_y :: rat
  row_mag_z :: rat
  row_pitch :: rat
  row_roll :: rat
  row_yaw :: rat
  row_x_acc :: rat
  row_y_acc :: rat
  row_z_acc :: rat

datatype csv_line = Header "string list" | Row csv_row

definition create_csv_file :: "csv_line list" where
  "create_csv_file =
     [Header [''Counter'', ''Date/time'', ''Latitude'', ''Longitude'', ''Temperature'',
              ''Humidity'', ''MagX'', ''MagY'', ''MagZ'', ''Pitch'', ''Roll'', ''Yaw'',
              ''X_Acc'', ''Y_Acc'', ''Z_Acc'']]"

definition add_csv_data :: "cycle_env \<Rightarrow> csv_line list \<Rightarrow> csv_row \<Rightarrow> exn + csv_line list" where
  "add_csv_data env data_file data =
     (case csv_write env of Some e \<Rightarrow> Inl e | None \<Rightarrow> Inr (data_file @ [Row data]))"

section \<open>The camera and \<^verbatim>\<open>capture\<close>\<close>

record camera =
  exif_tags :: "(string \<times> string) list"
  images :: "(string \<times> (string \<times> string) list) list"

text \<open>Lines 46 to 57 of \<^verbatim>\<open>capture\<close>, with the position that line 44 has read.\<close>

fun tag_and_shoot ::
  "cycle_env \<Rightarrow> camera \<Rightarrow> string \<Rightarrow> angle \<times> angle \<Rightarrow> exn option \<times> camera" where
  "tag_and_shoot env cam image_file (latitude, longitude) =
     (case convert latitude of (south, exif_latitude) \<Rightarrow>
      case convert longitude of (west, exif_longitude) \<Rightarrow>
        let tags1 = AList.update ''GPS.GPSLatitude'' exif_latitude (exif_tags cam);
            tags2 = AList.update ''GPS.GPSLatitudeRef'' (if south then ''S'' else ''N'') tags1;
            tags3 = AList.update ''GPS.GPSLongitude'' exif_longitude tags2;
            tags4 = AList.update ''GPS.GPSLongitudeRef'' (if west then ''W'' else ''E'') tags3;
            cam1 = cam\<lparr>exif_tags := tags4\<rparr>
        in (case camera_capture env of
              Some e \<Rightarrow> (Some e, cam1)
            | None \<Rightarrow> (None, cam1\<lparr>images := images cam1 @ [(image_file, tags4)]\<rparr>)))"

definition capture :: "cycle_env \<Rightarrow> camera \<Rightarrow> string \<Rightarrow> exn option \<times> camera" where
  "capture env cam image_file =
     (case coordinates_capture env of
        Inl e \<Rightarrow> (Some e, cam)
      | Inr location \<Rightarrow> tag_and_shoot env cam image_file location)"

section \<open>The acquisition loop\<close>

text \<open>The module-level constants of \<^verbatim>\<open>main.py\<close>, and the folder it runs from.\<close>

record config =
  base_folder :: string
  minutes_to_run :: int
  sampling_delta_secs :: int
  max_photos_size :: int

definition main_config :: "string \<Rightarrow> config" where
  "main_config folder =
     \<lparr>base_folder = folder, minutes_to_run = 175, sampling_delta_secs = 10,
      max_photos_size = 2684354560\<rparr>"

definition timedelta_minutes :: "int \<Rightarrow> int" where
  "timedelta_minutes m = m * 60000000"

datatype log_line = INFO string | ERROR string

record state =
  counter :: int
  photos_size :: int
  now_time :: int
  data_file :: "csv_line list"
  cam :: camera
  events_log :: "log_line list"
  slept_secs :: int

text \<open>
  The built-in \<^verbatim>\<open>round(x, n)\<close> of a float (its exact value rounded to \<open>n\<close>
  decimals, a tie going to the even digit, then the nearest float), \<^verbatim>\<open>str\<close> of an
  integer and the format \<^verbatim>\<open>:04d\<close>.
\<close>

definition py_round :: "rat \<Rightarrow> nat \<Rightarrow> rat" where
  "py_round x n = fl (of_int (round_half_even (x * 10 ^ n)) / 10 ^ n)"

definition str_int :: "int \<Rightarrow> string" where
  "str_int i = (if i < 0 then ''-'' @ decimal (nat (- i)) else decimal (nat i))"

definition fmt_04d :: "int \<Rightarrow> string" where
  "fmt_04d i =
     (if i < 0 then ''-'' @ replicate (3 - length (decimal (nat (- i)))) CHR ''0'' @ decimal (nat (- i))
      else replicate (4 - length (decimal (nat i))) CHR ''0'' @ decimal (nat i))"

text \<open>Lines 99 to 141: the sensor reads, the position read and the row they make.\<close>

definition sample :: "cycle_env \<Rightarrow> int \<Rightarrow> exn + csv_row \<times> (angle \<times> angle)" where
  "sample env cnt =
     bind_exn (get_compass_raw env) (\<lambda>(mx, my, mz).
     bind_exn (get_orientation env) (\<lambda>(p, r, y).
     bind_exn (get_accelerometer_raw env) (\<lambda>(ax, ay, az).
     bind_exn (sense_humidity env) (\<lambda>h.
     bind_exn (sense_temperature env) (\<lambda>t.
     bind_exn (coordinates_loop env) (\<lambda>(latitude, longitude).
       Inr (\<lparr>row_counter = cnt, row_time = datetime_now_row env,
             row_latitude = latitude, row_longitude = longitude,
             row_temperature = py_round t 2, row_humidity = py_round h 2,
             row_mag_x = py_round mx 2, row_mag_y = py_round my 2, row_mag_z = py_round mz 2,
             row_pitch = py_round p 3, row_roll = py_round r 3, row_yaw = py_round y 3,
             row_x_acc = py_round ax 3, row_y_acc = py_round ay 3,
             row_z_acc = py_round az 3\<rparr>,
            (latitude, longitude))))))))"

text \<open>Lines 145 to 153: the photo, taken while the photos are below the size limit.\<close>

definition image_name :: "config \<Rightarrow> int \<Rightarrow> string" where
  "image_name cfg cnt = base_folder cfg @ ''/photo_'' @ fmt_04d cnt @ ''.jpg''"

definition photo_step :: "config \<Rightarrow> cycle_env \<Rightarrow> state \<Rightarrow> exn option \<times> state" where
  "photo_step cfg env st =
     (if photos_size st < max_photos_size cfg then
        (let image_file = image_name cfg (counter st)
         in case capture env (cam st) image_file of
              (Some e, cam') \<Rightarrow> (Some e, st\<lparr>cam := cam'\<rparr>)
            | (None, cam') \<Rightarrow>
                (case stat_st_size env of
                   Inl e \<Rightarrow> (Some e, st\<lparr>cam := cam'\<rparr>)
                 | Inr n \<Rightarrow>
                     (let total = photos_size st + int n
                      in (None, st\<lparr>cam := cam', photos_size := total,
                                    events_log := events_log st @
                                      [INFO (''iteration '' @ str_int (counter st) @
                                             '' photo size '' @ str_int total)]\<rparr>))))
      else (None, st\<lparr>events_log := events_log st @
                    [INFO (''iteration '' @ str_int (counter st) @
                           '' Max photos size reached.'')]\<rparr>))"

text \<open>
  The body of the \<^verbatim>\<open>try\<close>: the exception that leaves it, if any, and the state
  at that moment.
\<close>

definition try_body :: "config \<Rightarrow> cycle_env \<Rightarrow> state \<Rightarrow> exn option \<times> state" where
  "try_body cfg env st =
     (case sample env (counter st) of
        Inl e \<Rightarrow> (Some e, st)
      | Inr (data, location) \<Rightarrow>
          (case add_csv_data env (data_file st) data of
             Inl e \<Rightarrow> (Some e, st)
           | Inr file' \<Rightarrow>
               (case photo_step cfg env (st\<lparr>data_file := file'\<rparr>) of
                  (Some e, st') \<Rightarrow> (Some e, st')
                | (None, st') \<Rightarrow>
                    (None, st'\<lparr>counter := counter st' + 1,
                               slept_secs := slept_secs st' + sampling_delta_secs cfg,
                               now_time := datetime_now_refresh env\<rparr>))))"

text \<open>
  One pass of the \<^verbatim>\<open>while\<close> body: the \<^verbatim>\<open>try\<close> and its handler
  \<^verbatim>\<open>except Exception\<close>. The handler takes an instance of \<^verbatim>\<open>Exception\<close> and
  logs it; any other exception passes through it and leaves the loop. The result is the
  exception that leaves the loop, if any, and the state when the pass is over.
\<close>

definition error_line :: "exn \<Rightarrow> log_line" where
  "error_line e = ERROR (kind e @ '': '' @ message e)"

definition try_except :: "config \<Rightarrow> cycle_env \<Rightarrow> state \<Rightarrow> exn option \<times> state" where
  "try_except cfg env st =
     (case try_body cfg env st of
        (None, st') \<Rightarrow> (None, st')
      | (Some e, st') \<Rightarrow>
          if is_Exception e then (None, st'\<lparr>events_log := events_log st' @ [error_line e]\<rparr>)
          else (Some e, st'))"

definition cycle :: "config \<Rightarrow> cycle_env \<Rightarrow> state \<Rightarrow> state" where
  "cycle cfg env st = snd (try_except cfg env st)"

definition uncaught :: "config \<Rightarrow> cycle_env \<Rightarrow> state \<Rightarrow> exn option" where
  "uncaught cfg env st = fst (try_except cfg env st)"

definition running :: "config \<Rightarrow> int \<Rightarrow> state \<Rightarrow> bool" where
  "running cfg start_time st \<longleftrightarrow>
     now_time st < start_time + timedelta_minutes (minutes_to_run cfg)"

text \<open>
  How the program ends: the loop condition fails and the program goes on to its last
  line, or an exception the handler does not take ends the process.
\<close>

datatype outcome = Ended state | Uncaught exn state

text \<open>
  The \<^verbatim>\<open>while\<close> loop over a script of the world's answers, one entry per pass. The
  result is \<open>None\<close> when the script ends while the loop condition still holds: the loop
  has not left.
\<close>

fun main_loop :: "config \<Rightarrow> int \<Rightarrow> cycle_env list \<Rightarrow> state \<Rightarrow> outcome option" where
  "main_loop cfg start_time [] st =
     (if running cfg start_time st then None else Some (Ended st))"
| "main_loop cfg start_time (env # envs) st =
     (if running cfg start_time st then
        (case uncaught cfg env st of
           Some e \<Rightarrow> Some (Uncaught e (cycle cfg env st))
         | None \<Rightarrow> main_loop cfg start_time envs (cycle cfg env st))
      else Some (Ended st))"

definition initial_state :: "int \<Rightarrow> state" where
  "initial_state now =
     \<lparr>counter = 1, photos_size = 0, now_time = now, data_file = create_csv_file,
      cam = \<lparr>exif_tags = [], images = []\<rparr>, events_log = [], slept_secs = 0\<rparr>"


text \<open>
  The state a script leads to, whatever the clock says: the passes are made one after the
  other, up to the first that lets an exception leave the loop.
\<close>

fun cycles :: "config \<Rightarrow> cycle_env list \<Rightarrow> state \<Rightarrow> state" where
  "cycles cfg [] st = st"
| "cycles cfg (env # envs) st =
     (case uncaught cfg env st of
        Some e \<Rightarrow> cycle cfg env st
      | None \<Rightarrow> cycles cfg envs (cycle cfg env st))"

text \<open>The storage budget: the condition of line 145, on the size the passes before left.\<close>

definition remaining :: "config \<Rightarrow> state \<Rightarrow> bool" where
  "remaining cfg st \<longleftrightarrow> photos_size st < max_photos_size cfg"

section \<open>Reading a geotag back\<close>

text \<open>
  Following the spec's words, not \<^verbatim>\<open>main.py\<close>: the decoder of the round trip of the
  spec's section 8. It reads the three rationals of an encoded angle (degrees, minutes,
  seconds, each \<^verbatim>\<open>numerator/denominator\<close>, separated by commas) back into decimal
  degrees, negated for the negative hemisphere.
\<close>

fun index_of :: "'a list \<Rightarrow> 'a \<Rightarrow> nat option" where
  "index_of [] c = None"
| "index_of (x # xs) c = (if x = c then Some 0 else map_option Suc (index_of xs c))"

definition digit_value :: "char \<Rightarrow> nat option" where
  "digit_value c = index_of ''0123456789'' c"

fun parse_digits :: "nat \<Rightarrow> string \<Rightarrow> nat option" where
  "parse_digits acc [] = Some acc"
| "parse_digits acc (c # cs) =
     (case digit_value c of None \<Rightarrow> None | Some d \<Rightarrow> parse_digits (10 * acc + d) cs)"

definition parse_nat :: "string \<Rightarrow> nat option" where
  "parse_nat s = (if s = [] then None else parse_digits 0 s)"

fun split_on :: "char \<Rightarrow> string \<Rightarrow> string list" where
  "split_on sep [] = [[]]"
| "split_on sep (c # cs) =
     (if c = sep then [] # split_on sep cs
      else (case split_on sep cs of [] \<Rightarrow> [[c]] | w # ws \<Rightarrow> (c # w) # ws))"

definition parse_rational :: "string \<Rightarrow> rat option" where
  "parse_rational s =
     (case split_on CHR ''/'' s of
        [p, q] \<Rightarrow>
          (case (parse_nat p, parse_nat q) of
             (Some a, Some b) \<Rightarrow> if b = 0 then None else Some (of_nat a / of_nat b)
           | _ \<Rightarrow> None)
      | _ \<Rightarrow> None)"

definition decode :: "bool \<times> string \<Rightarrow> rat option" where
  "decode r =
     (case r of (negative, s) \<Rightarrow>
        (case split_on CHR '','' s of
           [d, m, sec] \<Rightarrow>
             (case (parse_rational d, parse_rational m, parse_rational sec) of
                (Some x, Some y, Some z) \<Rightarrow>
                  Some ((if negative then - 1 else 1) * (x + y / 60 + z / 3600))
              | _ \<Rightarrow> None)
         | _ \<Rightarrow> None))"


text \<open>
  Following the spec's words, not \<^verbatim>\<open>main.py\<close>: the rounding the spec gives for
  degrees and minutes, to the nearest integer with a tie going away from zero.
\<close>

definition round_half_away :: "rat \<Rightarrow> int" where
  "round_half_away x = (if 0 \<le> x then \<lfloor>x + 1 / 2\<rfloor> else - \<lfloor>- x + 1 / 2\<rfloor>)"

text \<open>
  Names for the steps of \<open>signed_dms\<close> and \<open>convert\<close>: the magnitude in seconds of
  arc, its whole minutes, the seconds left over, and the integer printed for ten times
  the seconds.
\<close>

definition arcseconds :: "angle \<Rightarrow> rat" where
  "arcseconds a = fl (\<bar>a\<bar> * 3600)"

definition whole_minutes :: "angle \<Rightarrow> int" where
  "whole_minutes a = \<lfloor>arcseconds a / 60\<rfloor>"

definition odd_seconds :: "angle \<Rightarrow> rat" where
  "odd_seconds a = arcseconds a - 60 * of_int (whole_minutes a)"

definition tenths :: "angle \<Rightarrow> int" where
  "tenths a = round_half_even (fl (odd_seconds a * 10))"

section \<open>Concrete worlds\<close>

definition flight_config :: config where
  "flight_config = main_config ''/home/pi''"

text \<open>A pass in which every collaborator answers.\<close>

definition calm :: cycle_env where
  "calm =
     \<lparr>get_compass_raw = Inr (12.25, - 7.5, 30), get_orientation = Inr (1.5, 2.25, 359),
      get_accelerometer_raw = Inr (0, 0.125, 1), sense_humidity = Inr 40.25,
      sense_temperature = Inr 25.5, coordinates_loop = Inr (51.5074, - 0.1278),
      datetime_now_row = 1000000, csv_write = None,
      coordinates_capture = Inr (51.5079, - 0.127), camera_capture = None,
      stat_st_size = Inr 600, datetime_now_refresh = 11000000\<rparr>"

definition calm_row :: "int \<Rightarrow> csv_row" where
  "calm_row cnt =
     \<lparr>row_counter = cnt, row_time = 1000000, row_latitude = 51.5074,
      row_longitude = - 0.1278, row_temperature = 25.5, row_humidity = 40.25,
      row_mag_x = 12.25, row_mag_y = - 7.5, row_mag_z = 30, row_pitch = 1.5,
      row_roll = 2.25, row_yaw = 359, row_x_acc = 0, row_y_acc = 0.125, row_z_acc = 1\<rparr>"

definition camera_down :: cycle_env where
  "camera_down = calm\<lparr>camera_capture := Some (Exn ''PiCameraError'' ''no frame'')\<rparr>"

definition sensor_down :: cycle_env where
  "sensor_down = calm\<lparr>get_compass_raw := Inl (Exn ''OSError'' ''no sensor'')\<rparr>"




fun row_counters :: "csv_line list \<Rightarrow> int list" where
  "row_counters [] = []"
| "row_counters (Header h # ls) = row_counters ls"
| "row_counters (Row r # ls) = row_counter r # row_counters ls"

definition calm_late :: cycle_env where
  "calm_late = calm\<lparr>datetime_now_refresh := 10500000000\<rparr>"

text \<open>
  Every pass the script gets to make raises, from the state the passes before it left;
  no pass is made after one that lets its exception leave the loop.
\<close>

fun all_raise :: "config \<Rightarrow> cycle_env list \<Rightarrow> state \<Rightarrow> bool" where
  "all_raise cfg [] st = True"
| "all_raise cfg (env # envs) st =
     (fst (try_body cfg env st) \<noteq> None \<and>
      (if uncaught cfg env st = None then all_raise cfg envs (cycle cfg env st) else True))"

text \<open>The angle of the float nearest to 0.04990277777777778, whose seconds end in a tie.\<close>

definition tie_angle :: angle where
  "tie_angle = 3595874102476043 / 72057594037927936"

definition small_config :: config where
  "small_config = flight_config\<lparr>max_photos_size := 1000\<rparr>"

definition calm_500 :: cycle_env where
  "calm_500 = calm\<lparr>stat_st_size := Inr 500\<rparr>"

section \<open>What one pass does to the state\<close>

lemma try_body_raise:
  assumes "fst (try_body cfg env st) = Some e"
  shows "events_log (snd (try_body cfg env st)) = events_log st"
    and "counter (snd (try_body cfg env st)) = counter st"
    and "now_time (snd (try_body cfg env st)) = now_time st"
    and "slept_secs (snd (try_body cfg env st)) = slept_secs st"
    and "photos_size (snd (try_body cfg env st)) = photos_size st"
  using assms
  by (auto simp: try_body_def photo_step_def Let_def
           split: sum.splits option.splits prod.splits if_splits)

lemma try_body_return:
  assumes "fst (try_body cfg env st) = None"
  shows "counter (snd (try_body cfg env st)) = counter st + 1"
    and "now_time (snd (try_body cfg env st)) = datetime_now_refresh env"
    and "slept_secs (snd (try_body cfg env st)) = slept_secs st + sampling_delta_secs cfg"
  using assms
  by (auto simp: try_body_def photo_step_def Let_def
           split: sum.splits option.splits prod.splits if_splits)

lemma cycle_fields:
  "counter (cycle cfg env st) = counter (snd (try_body cfg env st))"
  "photos_size (cycle cfg env st) = photos_size (snd (try_body cfg env st))"
  "now_time (cycle cfg env st) = now_time (snd (try_body cfg env st))"
  "slept_secs (cycle cfg env st) = slept_secs (snd (try_body cfg env st))"
  "data_file (cycle cfg env st) = data_file (snd (try_body cfg env st))"
  "cam (cycle cfg env st) = cam (snd (try_body cfg env st))"
  by (cases "try_body cfg env st"; simp add: cycle_def try_except_def split: option.splits)+

lemma cycle_return:
  "fst (try_body cfg env st) = None \<Longrightarrow> cycle cfg env st = snd (try_body cfg env st)"
  by (cases "try_body cfg env st") (simp add: cycle_def try_except_def)


lemma uncaught_Some:
  "uncaught cfg env st = Some e \<longleftrightarrow> fst (try_body cfg env st) = Some e \<and> \<not> is_Exception e"
  by (cases "try_body cfg env st") (auto simp: uncaught_def try_except_def split: option.splits)

lemma main_loop_stopped:
  "\<not> running cfg start_time st \<Longrightarrow> main_loop cfg start_time envs st = Some (Ended st)"
  by (cases envs) simp_all






lemma try_body_raises:
  "fst (try_body cfg env st) = Some e \<longleftrightarrow>
     sample env (counter st) = Inl e \<or>
     isl (sample env (counter st)) = False \<and>
       (csv_write env = Some e \<or>
        csv_write env = None \<and> photos_size st < max_photos_size cfg \<and>
          (fst (capture env (cam st) (image_name cfg (counter st))) = Some e \<or>
           fst (capture env (cam st) (image_name cfg (counter st))) = None \<and>
             stat_st_size env = Inl e))"
  by (auto simp: try_body_def photo_step_def add_csv_data_def Let_def
           split: sum.splits option.splits prod.splits if_splits)

section \<open>The end-to-end scenarios of \<^verbatim>\<open>convert\<close>\<close>

text \<open>
  C9. \<^verbatim>\<open>convert\<close> maps 51.5074 degrees to \<open>False\<close> and the string
  \<^verbatim>\<open>51/1,30/1,266/10\<close>, and -0.1278 degrees to \<open>True\<close> and the string
  \<^verbatim>\<open>0/1,7/1,401/10\<close>; so it does on the floats nearest to the two numbers, which
  are what the Python literals denote.
\<close>

theorem convert_scenarios:
  "convert 51.5074 = (False, ''51/1,30/1,266/10'') \<and>
   convert (- 0.1278) = (True, ''0/1,7/1,401/10'') \<and>
   convert (fl 51.5074) = (False, ''51/1,30/1,266/10'') \<and>
   convert (fl (- 0.1278)) = (True, ''0/1,7/1,401/10'')"
  by code_simp

section \<open>The row and the photo\<close>

text \<open>
  C1, as the spec states it: below the size limit, a failed capture keeps the row of that
  pass out of the file. It fails on the first pass of a flight whose camera raises: the
  file has gained the row.
\<close>

theorem capture_failure_row_counterexample:
  "photos_size (initial_state 0) < max_photos_size flight_config \<and>
   fst (capture camera_down (cam (initial_state 0)) (image_name flight_config 1)) =
     Some (Exn ''PiCameraError'' ''no frame'') \<and>
   data_file (cycle flight_config camera_down (initial_state 0)) =
     data_file (initial_state 0) @ [Row (calm_row 1)]"
  by code_simp

text \<open>
  C1, amended: the row is written at line 142, before the capture of line 147 is tried.
  In every pass below the size limit whose capture raises, the row of that pass is in the
  file, and the exception of the capture is the one that leaves the pass.
\<close>

theorem row_appended_before_capture:
  assumes "photos_size st < max_photos_size cfg"
    and "sample env (counter st) = Inr (data, location)"
    and "csv_write env = None"
    and "fst (capture env (cam st) (image_name cfg (counter st))) = Some e"
  shows "data_file (cycle cfg env st) = data_file st @ [Row data] \<and>
         fst (try_body cfg env st) = Some e"
proof -
  have raised: "fst (try_body cfg env st) = Some e"
    using assms by (simp add: try_body_raises)
  have "data_file (snd (try_body cfg env st)) = data_file st @ [Row data]"
    using assms
    by (auto simp: try_body_def photo_step_def add_csv_data_def Let_def
             split: prod.splits option.splits)
  with raised show ?thesis
    by (simp add: cycle_fields)
qed

theorem row_appended_before_capture_witness:
  "photos_size (initial_state 0) < max_photos_size flight_config \<and>
   sample camera_down (counter (initial_state 0)) = Inr (calm_row 1, (51.5074, - 0.1278)) \<and>
   csv_write camera_down = None \<and>
   row_counters (data_file (cycle flight_config camera_down (initial_state 0))) = [1] \<and>
   fst (try_body flight_config camera_down (initial_state 0)) =
     Some (Exn ''PiCameraError'' ''no frame'')"
proof -
  have a: "photos_size (initial_state 0) < max_photos_size flight_config"
    by code_simp
  have b: "sample camera_down (counter (initial_state 0)) = Inr (calm_row 1, (51.5074, - 0.1278))"
    by code_simp
  have c: "csv_write camera_down = None"
    by code_simp
  have d: "fst (capture camera_down (cam (initial_state 0))
                 (image_name flight_config (counter (initial_state 0)))) =
           Some (Exn ''PiCameraError'' ''no frame'')"
    by code_simp
  have e: "row_counters (data_file (initial_state 0) @ [Row (calm_row 1)]) = [1]"
    by code_simp
  from row_appended_before_capture [OF a b c d] a b c e show ?thesis
    by simp
qed

section \<open>The counter\<close>

text \<open>
  C2, as the spec states it: the counter goes up by one in every pass, also a failed one,
  and no value is used twice. It fails when the camera raises on the first pass: the
  counter is still 1 afterwards, and the next pass writes a second row numbered 1.
\<close>

theorem counter_reuse_counterexample:
  "fst (try_body flight_config camera_down (initial_state 0)) =
     Some (Exn ''PiCameraError'' ''no frame'') \<and>
   counter (cycle flight_config camera_down (initial_state 0)) = counter (initial_state 0) \<and>
   row_counters (data_file (cycles flight_config [camera_down, calm] (initial_state 0))) = [1, 1]"
  by code_simp

text \<open>
  C2, amended: the increment of line 155 is inside the \<^verbatim>\<open>try\<close>. A pass that
  leaves the \<^verbatim>\<open>try\<close> without an exception adds exactly one to the counter; a pass
  that raises leaves the counter as it was, for the next pass to use again.
\<close>

theorem counter_after_cycle:
  "counter (cycle cfg env st) =
     (if fst (try_body cfg env st) = None then counter st + 1 else counter st)"
proof (cases "fst (try_body cfg env st)")
  case None
  then show ?thesis
    by (simp add: cycle_fields try_body_return(1))
next
  case (Some e)
  then show ?thesis
    by (simp add: cycle_fields try_body_raise(2))
qed

section \<open>The handler\<close>




section \<open>Sleeping and the stored time\<close>

text \<open>
  C7, as the spec states it: after a pass that raised, the loop still sleeps and reads the
  clock. It fails when the compass raises on the first pass: nothing has been slept and
  the stored time is still 0, though the clock would have answered 11000000.
\<close>

theorem no_sleep_after_failure_counterexample:
  "fst (try_body flight_config sensor_down (initial_state 0)) =
     Some (Exn ''OSError'' ''no sensor'') \<and>
   slept_secs (cycle flight_config sensor_down (initial_state 0)) = slept_secs (initial_state 0) \<and>
   now_time (cycle flight_config sensor_down (initial_state 0)) = 0 \<and>
   datetime_now_refresh sensor_down = 11000000"
  by code_simp

text \<open>
  C7, amended: the sleep of line 157 and the refresh of line 159 are inside the
  \<^verbatim>\<open>try\<close>. A pass that raises neither sleeps nor refreshes the stored time, and
  the loop condition is evaluated again on the stored time of before; a pass that does
  not raise sleeps the sampling interval and stores the clock's answer.
\<close>

theorem sleep_and_refresh_after_cycle:
  "slept_secs (cycle cfg env st) =
     (if fst (try_body cfg env st) = None then slept_secs st + sampling_delta_secs cfg
      else slept_secs st) \<and>
   now_time (cycle cfg env st) =
     (if fst (try_body cfg env st) = None then datetime_now_refresh env else now_time st) \<and>
   running cfg start_time (cycle cfg env st) =
     (if fst (try_body cfg env st) = None
      then datetime_now_refresh env < start_time + timedelta_minutes (minutes_to_run cfg)
      else running cfg start_time st)"
proof (cases "fst (try_body cfg env st)")
  case None
  then show ?thesis
    by (simp add: cycle_fields try_body_return running_def)
next
  case (Some e)
  then show ?thesis
    by (simp add: cycle_fields try_body_raise running_def)
qed

section \<open>The geotag\<close>

text \<open>
  C8, as the spec states it: the geotag of the photo encodes the position written into the
  row of the same pass. It fails on a calm first pass in which the position provider
  answers the second read with a later position: the row holds 51.5074 and -0.1278, whose
  encodings are \<^verbatim>\<open>51/1,30/1,266/10\<close> and \<^verbatim>\<open>0/1,7/1,401/10\<close>, and
  the photo carries \<^verbatim>\<open>51/1,30/1,284/10\<close> and \<^verbatim>\<open>0/1,7/1,372/10\<close>.
\<close>

theorem geotag_differs_from_row_counterexample:
  "fst (try_body flight_config calm (initial_state 0)) = None \<and>
   data_file (cycle flight_config calm (initial_state 0)) =
     data_file (initial_state 0) @ [Row (calm_row 1)] \<and>
   row_latitude (calm_row 1) = 51.5074 \<and> row_longitude (calm_row 1) = - 0.1278 \<and>
   convert 51.5074 = (False, ''51/1,30/1,266/10'') \<and>
   convert (- 0.1278) = (True, ''0/1,7/1,401/10'') \<and>
   images (cam (cycle flight_config calm (initial_state 0))) =
     [(''/home/pi/photo_0001.jpg'',
       [(''GPS.GPSLatitude'', ''51/1,30/1,284/10''), (''GPS.GPSLatitudeRef'', ''N''),
        (''GPS.GPSLongitude'', ''0/1,7/1,372/10''), (''GPS.GPSLongitudeRef'', ''W'')])]"
  by code_simp

lemma map_of_update_tags:
  "map_of (AList.update k v al) k' = (if k' = k then Some v else map_of al k')"
  by (simp add: update_conv')

text \<open>
  C8, amended: \<^verbatim>\<open>capture\<close> reads the position itself (line 44), after the row
  has been written. In a pass below the size limit that does not raise, the row holds the
  unrounded degrees of the loop's read (line 123), and the four tags of the photo are
  \<^verbatim>\<open>convert\<close> of the unrounded angles of the second read made inside
  \<^verbatim>\<open>capture\<close>.
\<close>

theorem geotag_from_second_read:
  assumes "photos_size st < max_photos_size cfg"
    and "fst (try_body cfg env st) = None"
    and "coordinates_loop env = Inr (lat, lon)"
    and "coordinates_capture env = Inr (lat', lon')"
  shows "\<exists>data tags.
           data_file (cycle cfg env st) = data_file st @ [Row data] \<and>
           row_latitude data = lat \<and> row_longitude data = lon \<and>
           images (cam (cycle cfg env st)) =
             images (cam st) @ [(image_name cfg (counter st), tags)] \<and>
           map_of tags ''GPS.GPSLatitude'' = Some (snd (convert lat')) \<and>
           map_of tags ''GPS.GPSLatitudeRef'' = Some (if fst (convert lat') then ''S'' else ''N'') \<and>
           map_of tags ''GPS.GPSLongitude'' = Some (snd (convert lon')) \<and>
           map_of tags ''GPS.GPSLongitudeRef'' = Some (if fst (convert lon') then ''W'' else ''E'')"
proof -
  obtain data where s: "sample env (counter st) = Inr (data, (lat, lon))"
    and d: "row_latitude data = lat" "row_longitude data = lon"
    using assms(2,3)
    by (auto simp: try_body_def sample_def bind_exn_def split: sum.splits prod.splits)
  show ?thesis
    using assms s d
    by (auto simp: cycle_return try_body_def photo_step_def add_csv_data_def capture_def Let_def
                    map_of_update_tags
             split: sum.splits option.splits prod.splits if_splits)
qed

theorem geotag_from_second_read_witness:
  "photos_size (initial_state 0) < max_photos_size flight_config \<and>
   fst (try_body flight_config calm (initial_state 0)) = None \<and>
   coordinates_loop calm = Inr (51.5074, - 0.1278) \<and>
   coordinates_capture calm = Inr (51.5079, - 0.127) \<and>
   (\<exists>data tags.
      data_file (cycle flight_config calm (initial_state 0)) =
        data_file (initial_state 0) @ [Row data] \<and>
      row_latitude data = 51.5074 \<and> row_longitude data = - 0.1278 \<and>
      images (cam (cycle flight_config calm (initial_state 0))) =
        images (cam (initial_state 0)) @
          [(image_name flight_config (counter (initial_state 0)), tags)] \<and>
      map_of tags ''GPS.GPSLatitude'' = Some (snd (convert 51.5079)) \<and>
      map_of tags ''GPS.GPSLatitudeRef'' = Some (if fst (convert 51.5079) then ''S'' else ''N'') \<and>
      map_of tags ''GPS.GPSLongitude'' = Some (snd (convert (- 0.127))) \<and>
      map_of tags ''GPS.GPSLongitudeRef'' =
        Some (if fst (convert (- 0.127)) then ''W'' else ''E''))"
proof -
  have a: "photos_size (initial_state 0) < max_photos_size flight_config"
    by code_simp
  have b: "fst (try_body flight_config calm (initial_state 0)) = None"
    by code_simp
  have c: "coordinates_loop calm = Inr (51.5074, - 0.1278)"
    by code_simp
  have d: "coordinates_capture calm = Inr (51.5079, - 0.127)"
    by code_simp
  from a b c d geotag_from_second_read [OF a b c d] show ?thesis
    by (intro conjI)
qed

section \<open>Leaving the loop\<close>

lemma cycle_raise_now_time:
  "fst (try_body cfg env st) \<noteq> None \<Longrightarrow> now_time (cycle cfg env st) = now_time st"
  by (auto simp: cycle_fields try_body_raise(3))

lemma cycle_raise_running:
  "fst (try_body cfg env st) \<noteq> None \<Longrightarrow>
   running cfg start_time (cycle cfg env st) = running cfg start_time st"
  by (simp add: running_def cycle_raise_now_time)

lemma cycles_all_raise_now_time:
  "all_raise cfg envs st \<Longrightarrow> now_time (cycles cfg envs st) = now_time st"
  by (induction envs arbitrary: st)
    (auto simp: cycle_raise_now_time split: option.splits if_splits)

lemma main_loop_all_raise:
  "running cfg start_time st \<Longrightarrow> all_raise cfg envs st \<Longrightarrow>
   (case main_loop cfg start_time envs st of
      None \<Rightarrow> True
    | Some (Ended s) \<Rightarrow> False
    | Some (Uncaught e s) \<Rightarrow> \<not> is_Exception e)"
proof (induction envs arbitrary: st)
  case Nil
  then show ?case by simp
next
  case (Cons env envs)
  show ?case
  proof (cases "uncaught cfg env st")
    case None
    with Cons.prems have "running cfg start_time (cycle cfg env st)"
      "all_raise cfg envs (cycle cfg env st)"
      by (simp_all add: cycle_raise_running)
    from Cons.IH [OF this] None Cons.prems(1) show ?thesis
      by simp
  next
    case (Some e)
    then have "\<not> is_Exception e"
      by (simp add: uncaught_Some)
    with Some Cons.prems(1) show ?thesis
      by simp
  qed
qed

lemma main_loop_leaves:
  "running cfg start_time st \<Longrightarrow> main_loop cfg start_time envs st = Some (Ended st') \<Longrightarrow>
   \<exists>pre env post.
     envs = pre @ env # post \<and>
     fst (try_body cfg env (cycles cfg pre st)) = None \<and>
     start_time + timedelta_minutes (minutes_to_run cfg) \<le> datetime_now_refresh env \<and>
     st' = cycles cfg (pre @ [env]) st"
proof (induction envs arbitrary: st)
  case Nil
  then show ?case by simp
next
  case (Cons env envs)
  let ?s = "cycle cfg env st"
  from Cons.prems have caught: "uncaught cfg env st = None"
    by (cases "uncaught cfg env st") simp_all
  with Cons.prems have run: "main_loop cfg start_time envs ?s = Some (Ended st')"
    by simp
  show ?case
  proof (cases "running cfg start_time ?s")
    case True
    from Cons.IH [OF True run] obtain pre e post where
      "envs = pre @ e # post" "fst (try_body cfg e (cycles cfg pre ?s)) = None"
      "start_time + timedelta_minutes (minutes_to_run cfg) \<le> datetime_now_refresh e"
      "st' = cycles cfg (pre @ [e]) ?s"
      by blast
    with caught have "env # envs = (env # pre) @ e # post \<and>
        fst (try_body cfg e (cycles cfg (env # pre) st)) = None \<and>
        start_time + timedelta_minutes (minutes_to_run cfg) \<le> datetime_now_refresh e \<and>
        st' = cycles cfg ((env # pre) @ [e]) st"
      by simp
    then show ?thesis by blast
  next
    case False
    with run have st': "st' = ?s"
      by (simp add: main_loop_stopped)
    have ok: "fst (try_body cfg env st) = None"
      using False Cons.prems(1) cycle_raise_running [of cfg env st start_time] by blast
    then have "now_time ?s = datetime_now_refresh env"
      by (simp add: cycle_return try_body_return(2))
    with False have "start_time + timedelta_minutes (minutes_to_run cfg) \<le> datetime_now_refresh env"
      by (simp add: running_def)
    with ok st' caught have "env # envs = [] @ env # envs \<and>
        fst (try_body cfg env (cycles cfg [] st)) = None \<and>
        start_time + timedelta_minutes (minutes_to_run cfg) \<le> datetime_now_refresh env \<and>
        st' = cycles cfg ([] @ [env]) st"
      by simp
    then show ?thesis by blast
  qed
qed

text \<open>
  C10. The loop condition reads the stored time, which only a pass that does not raise
  refreshes. From a state in which the loop runs: if every pass of a script raises, the
  stored time is the same after the script and the loop has not left by the time ceiling,
  however long the script: it is still running, unless an exception outside
  \<^verbatim>\<open>Exception\<close> has ended the process. And if the loop does leave by the time
  ceiling, some pass of the script did not raise and stored a time at or past the
  ceiling, and the loop left right after it.
\<close>

theorem stale_time_never_ends:
  assumes "running cfg start_time st"
  shows "(all_raise cfg envs st \<longrightarrow>
            now_time (cycles cfg envs st) = now_time st \<and>
            (\<forall>st'. main_loop cfg start_time envs st \<noteq> Some (Ended st')) \<and>
            ((\<forall>e s. main_loop cfg start_time envs st \<noteq> Some (Uncaught e s)) \<longrightarrow>
               main_loop cfg start_time envs st = None)) \<and>
         (\<forall>st'. main_loop cfg start_time envs st = Some (Ended st') \<longrightarrow>
            (\<exists>pre env post.
               envs = pre @ env # post \<and>
               fst (try_body cfg env (cycles cfg pre st)) = None \<and>
               start_time + timedelta_minutes (minutes_to_run cfg) \<le> datetime_now_refresh env \<and>
               st' = cycles cfg (pre @ [env]) st))"
proof -
  have never: "main_loop cfg start_time envs st \<noteq> Some (Ended st')"
    if "all_raise cfg envs st" for st'
    using main_loop_all_raise [OF assms that] by auto
  have "main_loop cfg start_time envs st = None"
    if "all_raise cfg envs st" "\<forall>e s. main_loop cfg start_time envs st \<noteq> Some (Uncaught e s)"
  proof (cases "main_loop cfg start_time envs st")
    case None
    then show ?thesis .
  next
    case (Some r)
    with that never show ?thesis
      by (cases r) auto
  qed
  with never show ?thesis
    using assms main_loop_leaves [of cfg start_time st envs]
    by (simp add: cycles_all_raise_now_time)
qed

theorem stale_time_never_ends_witness:
  "running flight_config 0 (initial_state 0) \<and>
   all_raise flight_config [sensor_down, camera_down, sensor_down] (initial_state 0) \<and>
   now_time (cycles flight_config [sensor_down, camera_down, sensor_down] (initial_state 0)) = 0 \<and>
   main_loop flight_config 0 [sensor_down, camera_down, sensor_down] (initial_state 0) = None \<and>
   main_loop flight_config 0 [sensor_down, calm_late] (initial_state 0) =
     Some (Ended (cycles flight_config [sensor_down, calm_late] (initial_state 0))) \<and>
   (\<exists>pre env post.
      [sensor_down, calm_late] = pre @ env # post \<and>
      fst (try_body flight_config env (cycles flight_config pre (initial_state 0))) = None \<and>
      0 + timedelta_minutes (minutes_to_run flight_config) \<le> datetime_now_refresh env \<and>
      cycles flight_config [sensor_down, calm_late] (initial_state 0) =
        cycles flight_config (pre @ [env]) (initial_state 0))"
proof -
  let ?raising = "[sensor_down, camera_down, sensor_down]"
  have a: "running flight_config 0 (initial_state 0)"
    by code_simp
  have b: "all_raise flight_config ?raising (initial_state 0)"
    by code_simp
  have c: "now_time (initial_state 0) = 0"
    by code_simp
  have d: "main_loop flight_config 0 [sensor_down, calm_late] (initial_state 0) =
           Some (Ended (cycles flight_config [sensor_down, calm_late] (initial_state 0)))"
    by code_simp
  have e: "\<forall>x s. main_loop flight_config 0 ?raising (initial_state 0) \<noteq> Some (Uncaught x s)"
  proof -
    have "main_loop flight_config 0 ?raising (initial_state 0) = None"
      by code_simp
    then show ?thesis by simp
  qed
  from stale_time_never_ends [OF a, of ?raising] b
  have stale: "now_time (cycles flight_config ?raising (initial_state 0)) =
               now_time (initial_state 0)"
    and still: "(\<forall>x s. main_loop flight_config 0 ?raising (initial_state 0) \<noteq>
                         Some (Uncaught x s)) \<longrightarrow>
                main_loop flight_config 0 ?raising (initial_state 0) = None"
    by blast+
  from stale c have "now_time (cycles flight_config ?raising (initial_state 0)) = 0"
    by (rule trans)
  moreover from still e have "main_loop flight_config 0 ?raising (initial_state 0) = None"
    by blast
  ultimately
  have first: "now_time (cycles flight_config ?raising (initial_state 0)) = 0 \<and>
               main_loop flight_config 0 ?raising (initial_state 0) = None"
    by (rule conjI)
  from stale_time_never_ends [OF a, of "[sensor_down, calm_late]"] d
  have second: "\<exists>pre env post.
      [sensor_down, calm_late] = pre @ env # post \<and>
      fst (try_body flight_config env (cycles flight_config pre (initial_state 0))) = None \<and>
      0 + timedelta_minutes (minutes_to_run flight_config) \<le> datetime_now_refresh env \<and>
      cycles flight_config [sensor_down, calm_late] (initial_state 0) =
        cycles flight_config (pre @ [env]) (initial_state 0)"
    by blast
  from a b d first second show ?thesis
    by blast
qed

section \<open>The storage budget\<close>

lemma try_body_exhausted:
  "\<not> photos_size st < max_photos_size cfg \<Longrightarrow>
   photos_size (snd (try_body cfg env st)) = photos_size st \<and>
   cam (snd (try_body cfg env st)) = cam st"
  by (auto simp: try_body_def photo_step_def Let_def split: sum.splits prod.splits)

lemma cycle_exhausted:
  "\<not> remaining cfg st \<Longrightarrow>
   photos_size (cycle cfg env st) = photos_size st \<and> cam (cycle cfg env st) = cam st"
  by (simp add: remaining_def cycle_fields try_body_exhausted)

lemma cycles_exhausted:
  "\<not> remaining cfg st \<Longrightarrow>
   photos_size (cycles cfg envs st) = photos_size st \<and> cam (cycles cfg envs st) = cam st"
proof (induction envs arbitrary: st)
  case Nil
  then show ?case by simp
next
  case (Cons env envs)
  from Cons.prems have same: "photos_size (cycle cfg env st) = photos_size st"
    "cam (cycle cfg env st) = cam st"
    by (simp_all add: cycle_exhausted)
  with Cons.prems have "\<not> remaining cfg (cycle cfg env st)"
    by (simp add: remaining_def)
  from Cons.IH [OF this] same show ?case
    by (simp split: option.splits)
qed

lemma cycle_consumes:
  "photos_size (cycle cfg env st) = photos_size st \<or>
   remaining cfg st \<and>
     (\<exists>n. stat_st_size env = Inr n \<and> photos_size (cycle cfg env st) = photos_size st + int n)"
  by (auto simp: cycle_fields remaining_def try_body_def photo_step_def Let_def
           split: sum.splits prod.splits option.splits)

lemma cycle_captured:
  "remaining cfg st \<Longrightarrow> fst (try_body cfg env st) = None \<Longrightarrow>
   \<exists>n. stat_st_size env = Inr n \<and>
       photos_size (cycle cfg env st) = photos_size st + int n \<and>
       length (images (cam (cycle cfg env st))) = length (images (cam st)) + 1"
  by (auto simp: cycle_return remaining_def try_body_def photo_step_def capture_def Let_def
           split: sum.splits prod.splits option.splits if_splits)

lemma cycles_monotone: "photos_size st \<le> photos_size (cycles cfg envs st)"
proof (induction envs arbitrary: st)
  case Nil
  then show ?case by simp
next
  case (Cons env envs)
  have one: "photos_size st \<le> photos_size (cycle cfg env st)"
    using cycle_consumes [of cfg env st] by auto
  also have "\<dots> \<le> photos_size (cycles cfg envs (cycle cfg env st))"
    by (rule Cons.IH)
  finally show ?case
    using one by (simp split: option.splits)
qed

lemma cycles_overshoot:
  assumes "\<forall>env\<in>set envs. \<forall>n. stat_st_size env = Inr n \<longrightarrow> n \<le> largest"
    and "photos_size st < max_photos_size cfg + int largest"
  shows "photos_size (cycles cfg envs st) < max_photos_size cfg + int largest"
  using assms
proof (induction envs arbitrary: st)
  case Nil
  then show ?case by simp
next
  case (Cons env envs)
  have "photos_size (cycle cfg env st) < max_photos_size cfg + int largest"
    using cycle_consumes [of cfg env st] Cons.prems
    by (auto simp: remaining_def)
  with Cons.IH [of "cycle cfg env st"] Cons.prems(1) show ?case
    by (simp split: option.splits)
qed

text \<open>
  C5. \<open>remaining\<close> holds exactly when the accumulated size is below the limit. A
  pass that finds it true and does not raise has taken one photo and added its size. Once
  it is false it stays false, and neither the accumulated size nor the photos change any
  more. The accumulated size never goes down, and from a state below the limit it stays
  below the limit plus the size of the largest photo of the script.
\<close>

theorem storage_budget:
  assumes "\<forall>env\<in>set envs. \<forall>n. stat_st_size env = Inr n \<longrightarrow> n \<le> largest"
  shows "(remaining cfg st \<longleftrightarrow> photos_size st < max_photos_size cfg) \<and>
         (remaining cfg st \<and> fst (try_body cfg env st) = None \<longrightarrow>
            (\<exists>n. stat_st_size env = Inr n \<and>
                 photos_size (cycle cfg env st) = photos_size st + int n \<and>
                 length (images (cam (cycle cfg env st))) = length (images (cam st)) + 1)) \<and>
         (\<not> remaining cfg st \<longrightarrow>
            \<not> remaining cfg (cycles cfg envs st) \<and>
            photos_size (cycles cfg envs st) = photos_size st \<and>
            images (cam (cycles cfg envs st)) = images (cam st)) \<and>
         photos_size st \<le> photos_size (cycles cfg envs st) \<and>
         (remaining cfg st \<longrightarrow>
            photos_size (cycles cfg envs st) < max_photos_size cfg + int largest)"
proof -
  have "remaining cfg st \<Longrightarrow> photos_size (cycles cfg envs st) < max_photos_size cfg + int largest"
    using cycles_overshoot [OF assms, of st cfg] by (simp add: remaining_def)
  moreover have "\<not> remaining cfg st \<Longrightarrow> \<not> remaining cfg (cycles cfg envs st)"
    using cycles_exhausted [of cfg st envs] by (simp add: remaining_def)
  ultimately show ?thesis
    using cycle_captured [of cfg st env] cycles_exhausted [of cfg st envs]
      cycles_monotone [of st cfg envs]
    by (auto simp: remaining_def)
qed

theorem storage_budget_witness:
  "stat_st_size calm = Inr 600 \<and> stat_st_size calm_500 = Inr 500 \<and>
   remaining small_config (initial_state 0) \<and>
   fst (try_body small_config calm (initial_state 0)) = None \<and>
   photos_size (cycle small_config calm (initial_state 0)) = 600 \<and>
   remaining small_config (cycle small_config calm (initial_state 0)) \<and>
   photos_size (cycles small_config [calm, calm_500] (initial_state 0)) = 1100 \<and>
   photos_size (cycles small_config [calm, calm_500] (initial_state 0)) <
     max_photos_size small_config + int 600 \<and>
   \<not> remaining small_config (cycles small_config [calm, calm_500] (initial_state 0)) \<and>
   \<not> remaining small_config
       (cycles small_config [calm_500, calm_500]
          (cycles small_config [calm, calm_500] (initial_state 0))) \<and>
   photos_size
     (cycles small_config [calm_500, calm_500]
        (cycles small_config [calm, calm_500] (initial_state 0))) =
     photos_size (cycles small_config [calm, calm_500] (initial_state 0)) \<and>
   images (cam (cycles small_config [calm_500, calm_500]
        (cycles small_config [calm, calm_500] (initial_state 0)))) =
     images (cam (cycles small_config [calm, calm_500] (initial_state 0)))"
proof -
  let ?s0 = "initial_state 0"
  let ?s2 = "cycles small_config [calm, calm_500] ?s0"
  have sizes: "stat_st_size calm = Inr 600" "stat_st_size calm_500 = Inr 500"
    by code_simp+
  then have h: "\<forall>env\<in>set [calm, calm_500]. \<forall>n. stat_st_size env = Inr n \<longrightarrow> n \<le> 600"
    and h': "\<forall>env\<in>set [calm_500, calm_500]. \<forall>n. stat_st_size env = Inr n \<longrightarrow> n \<le> 600"
    by simp_all
  have r0: "remaining small_config ?s0"
    by code_simp
  have t0: "fst (try_body small_config calm ?s0) = None"
    by code_simp
  have v: "photos_size (cycle small_config calm ?s0) = 600"
    "remaining small_config (cycle small_config calm ?s0)"
    "photos_size ?s2 = 1100"
    by code_simp+
  have r2: "\<not> remaining small_config ?s2"
    by code_simp
  from storage_budget [OF h, of small_config ?s0 calm] r0
  have below: "photos_size ?s2 < max_photos_size small_config + int 600"
    by blast
  from storage_budget [OF h', of small_config ?s2 calm] r2
  have after: "\<not> remaining small_config (cycles small_config [calm_500, calm_500] ?s2) \<and>
      photos_size (cycles small_config [calm_500, calm_500] ?s2) = photos_size ?s2 \<and>
      images (cam (cycles small_config [calm_500, calm_500] ?s2)) = images (cam ?s2)"
    by blast
  from sizes r0 t0 v r2 below after show ?thesis
    by blast
qed

section \<open>The angle encoder\<close>

lemma round_half_even_of_int: "round_half_even (of_int k) = k"
  by (simp add: round_half_even_def)

lemma round_half_even_nearest: "\<bar>of_int (round_half_even x) - x\<bar> \<le> 1 / 2"
proof -
  have "of_int \<lfloor>x\<rfloor> \<le> x" "x < of_int \<lfloor>x\<rfloor> + 1" by linarith+
  then show ?thesis
    unfolding round_half_even_def Let_def by (auto simp: abs_le_iff)
qed

lemma round_half_even_nonneg: "0 \<le> x \<Longrightarrow> 0 \<le> round_half_even x"
  unfolding round_half_even_def Let_def by auto

text \<open>The float nearest to a number is within half a unit in the last place of it.\<close>

lemma ilog2_lower: assumes "0 < x" shows "2 powi (ilog2 x) \<le> x"
proof -
  obtain p q where pq: "quotient_of x = (p, q)" by (cases "quotient_of x")
  then have q: "0 < q" and x: "x = of_int p / of_int q"
    using quotient_of_denom_pos quotient_of_div by blast+
  with assms have p: "0 < p"
    by (simp add: zero_less_divide_iff)
  have lp: "2 ^ nat (bitlen p - 1) \<le> p" using bitlen_bounds [OF p] by simp
  have uq: "q < 2 ^ nat (bitlen q)" using bitlen_bounds [OF q] by simp
  have "p < 2 ^ nat (bitlen p)" using bitlen_bounds [OF p] by simp
  with p have bp: "0 < bitlen p"
    by (cases "0 < bitlen p") simp_all
  have bq: "0 \<le> bitlen q" by (simp add: bitlen_def)
  show ?thesis
  proof (cases "(2::rat) powi (bitlen p - bitlen q) \<le> x")
    case True
    then show ?thesis by (simp add: ilog2_def pq)
  next
    case False
    have "bitlen p - bitlen q - 1 = (bitlen p - 1) - bitlen q"
      by simp
    then have "(2::rat) powi (bitlen p - bitlen q - 1) = 2 powi ((bitlen p - 1) - bitlen q)"
      by (rule arg_cong)
    also have "\<dots> = 2 powi (bitlen p - 1) / 2 powi (bitlen q)"
      by (rule power_int_diff) simp
    also have "\<dots> = 2 ^ nat (bitlen p - 1) / 2 ^ nat (bitlen q)"
      using bq bp by (simp add: power_int_def)
    also have "\<dots> \<le> of_int p / of_int q"
    proof -
      have "(2::rat) ^ nat (bitlen p - 1) \<le> of_int p"
        using lp by (metis of_int_le_iff of_int_numeral of_int_power)
      moreover have "(of_int q :: rat) \<le> 2 ^ nat (bitlen q)"
        using uq by (metis less_imp_le of_int_le_iff of_int_numeral of_int_power)
      moreover have "(0::rat) < of_int q" "(0::rat) \<le> of_int p" using p q by simp_all
      ultimately show ?thesis
        by (intro frac_le) simp_all
    qed
    finally have "(2::rat) powi (bitlen p - bitlen q - 1) \<le> x"
      by (simp only: x)
    with False show ?thesis
      by (simp add: ilog2_def pq)
  qed
qed

lemma ilog2_below:
  assumes "0 < x" and "x < 2 ^ k"
  shows "ilog2 x \<le> int k - 1"
proof (rule ccontr)
  assume "\<not> ilog2 x \<le> int k - 1"
  then have "int k \<le> ilog2 x" by simp
  then have "(2::rat) powi (int k) \<le> 2 powi (ilog2 x)"
    by (intro power_int_increasing) simp_all
  with ilog2_lower [OF assms(1)] assms(2) show False
    by simp
qed

lemma fl_nonneg: "0 \<le> x \<Longrightarrow> 0 \<le> fl x"
  by (auto simp: fl_def Let_def intro!: mult_nonneg_nonneg round_half_even_nonneg divide_nonneg_nonneg)

lemma fl_close:
  assumes "0 \<le> x" and "x < 2 ^ k"
  shows "\<bar>fl x - x\<bar> \<le> 2 powi (int k - 54)"
proof (cases "x = 0")
  case True
  then show ?thesis by (simp add: fl_def)
next
  case False
  with assms have pos: "0 < x" by simp
  let ?e = "max (ilog2 \<bar>x\<bar>) (- 1022) - 52"
  let ?q = "(2::rat) powi ?e"
  have q: "0 < ?q" by simp
  have "?e \<le> int k - 53"
    using ilog2_below [OF pos assms(2)] pos by simp
  then have qle: "?q \<le> 2 powi (int k - 53)"
    by (intro power_int_increasing) simp_all
  have "fl x - x = (of_int (round_half_even (x / ?q)) - x / ?q) * ?q"
    using False q by (simp add: fl_def Let_def field_simps)
  then have "\<bar>fl x - x\<bar> = \<bar>of_int (round_half_even (x / ?q)) - x / ?q\<bar> * ?q"
    using q by (simp add: abs_mult)
  also have "\<dots> \<le> 1 / 2 * ?q"
    using round_half_even_nearest [of "x / ?q"] q by (intro mult_right_mono) simp_all
  also have "\<dots> \<le> 1 / 2 * 2 powi (int k - 53)"
    using qle by simp
  also have "\<dots> = 2 powi (int k - 54)"
    by (simp add: power_int_diff)
  finally show ?thesis .
qed


lemma fl_near:
  assumes "0 \<le> x" and "x < 2 ^ k" and "k \<le> 54"
  shows "\<bar>fl x - x\<bar> \<le> 1 / 2 ^ (54 - k)"
proof -
  have "(2::rat) powi (int k - 54) = 1 / 2 ^ (54 - k)"
  proof -
    have "int k - 54 = - int (54 - k)"
      using assms(3) by simp
    then have "(2::rat) powi (int k - 54) = 2 powi (- int (54 - k))"
      by (rule arg_cong)
    then show ?thesis
      by (simp add: power_int_minus field_simps)
  qed
  with fl_close [OF assms(1,2)] show ?thesis
    by simp
qed

lemma close_enough:
  fixes d1 d2 d3 :: rat
  assumes "\<bar>d1\<bar> \<le> 1 / 2 ^ 34" and "\<bar>d2\<bar> \<le> 1 / 2 ^ 44" and "\<bar>d3\<bar> \<le> 1 / 2"
  shows "\<bar>d1 / 3600 + (d3 + d2) / 36000\<bar> \<le> 1 / 36000"
proof -
  have "\<bar>d1 / 3600 + (d3 + d2) / 36000\<bar> \<le> \<bar>d1\<bar> / 3600 + (\<bar>d3\<bar> + \<bar>d2\<bar>) / 36000"
    by (simp add: abs_if field_simps)
  also have "\<dots> \<le> (1 / 2 ^ 34) / 3600 + (1 / 2 + 1 / 2 ^ 44) / 36000"
    using assms by (intro add_mono divide_right_mono) simp_all
  also have "\<dots> \<le> 1 / 36000"
    by simp
  finally show ?thesis .
qed

lemma within_half:
  fixes t p s :: rat
  assumes "\<bar>p - s\<bar> \<le> 1 / 2 ^ 44" and "\<bar>t - p\<bar> \<le> 1 / 2"
  shows "\<bar>t - s\<bar> \<le> 1 / 2 + 1 / 2 ^ 44"
proof -
  have "\<bar>t - s\<bar> \<le> \<bar>t - p\<bar> + \<bar>p - s\<bar>"
    by linarith
  with assms show ?thesis
    by linarith
qed

lemma fmt_0f_nonneg: "0 \<le> x \<Longrightarrow> fmt_0f x = decimal (nat (round_half_even x))"
  using round_half_even_nonneg [of x] by (simp add: fmt_0f_def)

lemma str_int_nonneg: "0 \<le> k \<Longrightarrow> str_int k = decimal (nat k)"
  by (simp add: str_int_def)

lemma fmt_0f_of_int: "0 \<le> k \<Longrightarrow> fmt_0f (of_int k) = decimal (nat k)"
  by (simp add: fmt_0f_nonneg round_half_even_of_int)

lemma signed_dms_parts:
  "signed_dms a =
     (sgn a, of_int (whole_minutes a div 60), of_int (whole_minutes a mod 60), odd_seconds a)"
  by (simp add: signed_dms_def odd_seconds_def whole_minutes_def arcseconds_def Let_def)

lemma arcseconds_nonneg: "0 \<le> arcseconds a"
  by (simp add: arcseconds_def fl_nonneg)

lemma whole_minutes_nonneg: "0 \<le> whole_minutes a"
  using arcseconds_nonneg [of a] by (simp add: whole_minutes_def)

lemma whole_parts_nonneg:
  "0 \<le> whole_minutes a div 60" "0 \<le> whole_minutes a mod 60" "whole_minutes a mod 60 < 60"
  using whole_minutes_nonneg [of a] by (simp_all add: pos_imp_zdiv_nonneg_iff)

lemma seconds_range: "0 \<le> odd_seconds a" "odd_seconds a < 60"
proof -
  let ?x = "arcseconds a / 60"
  have "of_int \<lfloor>?x\<rfloor> \<le> ?x" "?x < of_int \<lfloor>?x\<rfloor> + 1" by linarith+
  then show "0 \<le> odd_seconds a" "odd_seconds a < 60"
    by (simp_all add: odd_seconds_def whole_minutes_def)
qed

lemma tenths_nonneg: "0 \<le> tenths a"
  unfolding tenths_def using seconds_range(1) [of a]
  by (intro round_half_even_nonneg fl_nonneg) simp

lemma convert_parts:
  "convert a =
     (a < 0,
      decimal (nat (whole_minutes a div 60)) @ ''/1,'' @
      decimal (nat (whole_minutes a mod 60)) @ ''/1,'' @
      decimal (nat (tenths a)) @ ''/10'')"
proof -
  have "0 \<le> fl (odd_seconds a * 10)"
    using seconds_range(1) [of a] by (intro fl_nonneg) simp
  then show ?thesis
    unfolding convert_def signed_dms_parts using whole_parts_nonneg(1,2) [of a]
    by (simp only: exif_rationals.simps fmt_0f_of_int sgn_less)
      (simp only: fmt_0f_nonneg tenths_def)
qed

lemma digit_value_nth: 
  assumes "k < 10" shows "digit_value (''0123456789'' ! k) = Some k"
proof -
  from assms have "k \<in> {0, 1, 2, 3, 4, 5, 6, 7, 8, 9}" by auto
  then show ?thesis
    by (elim insertE emptyE) (simp_all add: digit_value_def)
qed

lemma digit_not_sep:
  assumes "k < 10" shows "''0123456789'' ! k \<noteq> CHR '',''" and "''0123456789'' ! k \<noteq> CHR ''/''"
proof -
  from assms have "k \<in> {0, 1, 2, 3, 4, 5, 6, 7, 8, 9}" by auto
  then show "''0123456789'' ! k \<noteq> CHR '',''" and "''0123456789'' ! k \<noteq> CHR ''/''"
    by (elim insertE emptyE; simp)+
qed

lemma decimal_no_sep: "CHR '','' \<notin> set (decimal n) \<and> CHR ''/'' \<notin> set (decimal n)"
proof (induction n rule: decimal.induct)
  case (1 n)
  show ?case
  proof (cases "n < 10")
    case True
    then show ?thesis
      using digit_not_sep [of n] by (subst (1 2) decimal.simps) auto
  next
    case False
    have "n mod 10 < 10" by simp
    with False 1 show ?thesis
      using digit_not_sep [of "n mod 10"] by (subst (1 2) decimal.simps) auto
  qed
qed

lemma decimal_nonempty: "decimal n \<noteq> []"
  by (subst decimal.simps) simp

lemma parse_digits_snoc:
  "parse_digits acc (cs @ [c]) =
     (case parse_digits acc cs of
        None \<Rightarrow> None
      | Some v \<Rightarrow> (case digit_value c of None \<Rightarrow> None | Some d \<Rightarrow> Some (10 * v + d)))"
  by (induction cs arbitrary: acc) (auto split: option.splits)

lemma parse_digits_decimal: "parse_digits 0 (decimal n) = Some n"
proof (induction n rule: decimal.induct)
  case (1 n)
  show ?case
  proof (cases "n < 10")
    case True
    then show ?thesis
      by (subst decimal.simps) (simp add: digit_value_nth)
  next
    case False
    have "n mod 10 < 10" by simp
    with False 1 show ?thesis
      by (subst decimal.simps) (simp add: parse_digits_snoc digit_value_nth)
  qed
qed

lemma parse_nat_decimal: "parse_nat (decimal n) = Some n"
  by (simp add: parse_nat_def decimal_nonempty parse_digits_decimal)

lemma split_on_none: "sep \<notin> set w \<Longrightarrow> split_on sep w = [w]"
  by (induction w) auto

lemma split_on_first: "sep \<notin> set w \<Longrightarrow> split_on sep (w @ sep # rest) = w # split_on sep rest"
  by (induction w) auto


lemma split_on_triple:
  assumes "CHR '','' \<notin> set x" "CHR '','' \<notin> set y" "CHR '','' \<notin> set z"
  shows "split_on CHR '','' (x @ ''/1,'' @ y @ ''/1,'' @ z @ ''/10'') =
           [x @ ''/1'', y @ ''/1'', z @ ''/10'']"
proof -
  have a: "CHR '','' \<notin> set (x @ ''/1'')" "CHR '','' \<notin> set (y @ ''/1'')"
    "CHR '','' \<notin> set (z @ ''/10'')"
    using assms by simp_all
  have "x @ ''/1,'' @ y @ ''/1,'' @ z @ ''/10'' =
        (x @ ''/1'') @ CHR '','' # ((y @ ''/1'') @ CHR '','' # (z @ ''/10''))"
    by simp
  then show ?thesis
    by (simp only: split_on_first [OF a(1)] split_on_first [OF a(2)] split_on_none [OF a(3)])
qed

lemma parse_rational_decimal:
  "parse_rational (decimal n @ ''/1'') = Some (of_nat n)"
  "parse_rational (decimal n @ ''/10'') = Some (of_nat n / 10)"
proof -
  have sep: "CHR ''/'' \<notin> set (decimal n)"
    by (simp add: decimal_no_sep)
  have one: "parse_nat ''1'' = Some 1" and ten: "parse_nat ''10'' = Some 10"
    by (simp_all add: parse_nat_def digit_value_def)
  have "split_on CHR ''/'' (decimal n @ CHR ''/'' # ''1'') = [decimal n, ''1'']"
    by (simp add: split_on_first [OF sep])
  then show "parse_rational (decimal n @ ''/1'') = Some (of_nat n)"
    by (simp add: parse_rational_def parse_nat_decimal one)
  have "split_on CHR ''/'' (decimal n @ CHR ''/'' # ''10'') = [decimal n, ''10'']"
    by (simp add: split_on_first [OF sep])
  then show "parse_rational (decimal n @ ''/10'') = Some (of_nat n / 10)"
    by (simp add: parse_rational_def parse_nat_decimal ten)
qed

lemma decode_convert:
  "decode (convert a) =
     Some ((if a < 0 then - 1 else 1) *
       (of_int (whole_minutes a div 60) + of_int (whole_minutes a mod 60) / 60 +
        of_int (tenths a) / 10 / 3600))"
proof -
  let ?d = "whole_minutes a div 60" and ?m = "whole_minutes a mod 60" and ?t = "tenths a"
  have nonneg: "0 \<le> ?d" "0 \<le> ?m" "0 \<le> ?t"
    by (simp_all add: whole_parts_nonneg tenths_nonneg)
  have split: "split_on CHR '','' (snd (convert a)) =
      [decimal (nat ?d) @ ''/1'', decimal (nat ?m) @ ''/1'', decimal (nat ?t) @ ''/10'']"
    unfolding convert_parts snd_conv
    by (rule split_on_triple) (simp_all add: decimal_no_sep)
  have "decode (convert a) =
      Some ((if a < 0 then - 1 else 1) *
        (of_nat (nat ?d) + of_nat (nat ?m) / 60 + of_nat (nat ?t) / 10 / 3600))"
    using split by (simp add: decode_def convert_parts parse_rational_decimal)
  with nonneg show ?thesis
    by simp
qed

text \<open>
  C4. For every angle from -179.999 to 179.999 degrees, the decoder reads the output of
  \<^verbatim>\<open>convert\<close> back to a value within 1/36000 of a degree of the angle, and the
  boolean \<^verbatim>\<open>convert\<close> returns is true exactly for a negative angle.
\<close>

theorem convert_round_trip:
  assumes "- 179.999 \<le> a" and "a \<le> 179.999"
  shows "\<exists>v. decode (convert a) = Some v \<and> \<bar>v - a\<bar> \<le> 1 / 36000 \<and>
             (fst (convert a) \<longleftrightarrow> a < 0)"
proof -
  let ?w = "whole_minutes a"
  let ?x = "arcseconds a"
  let ?s = "odd_seconds a"
  let ?p = "fl (?s * 10)"
  let ?t = "tenths a"
  let ?mag = "(of_int (?w div 60) :: rat) + of_int (?w mod 60) / 60 + of_int ?t / 10 / 3600"
  let ?v = "(if a < 0 then - 1 else 1) * ?mag"
  have "(of_int (?w div 60) :: rat) * 60 + of_int (?w mod 60) = of_int ?w"
    by (metis div_mult_mod_eq of_int_add of_int_mult of_int_numeral)
  then have whole: "(of_int (?w div 60) :: rat) + of_int (?w mod 60) / 60 = of_int ?w / 60"
    by (simp add: field_simps)
  have minutes: "(of_int ?w :: rat) / 60 = (?x - ?s) / 3600"
    by (simp add: odd_seconds_def field_simps)
  have "\<bar>a\<bar> * 3600 < 2 ^ 20"
    using assms by (simp add: abs_if)
  then have e1: "\<bar>?x - \<bar>a\<bar> * 3600\<bar> \<le> 1 / 2 ^ 34"
    unfolding arcseconds_def using fl_near [of "\<bar>a\<bar> * 3600" 20] by simp
  have "?s * 10 < 2 ^ 10" "0 \<le> ?s * 10"
    using seconds_range [of a] by simp_all
  then have e2: "\<bar>?p - ?s * 10\<bar> \<le> 1 / 2 ^ 44"
    using fl_near [of "?s * 10" 10] by simp
  have e3: "\<bar>of_int ?t - ?p\<bar> \<le> 1 / 2"
    unfolding tenths_def by (rule round_half_even_nearest)
  have "?mag - \<bar>a\<bar> =
        (?x - \<bar>a\<bar> * 3600) / 3600 + ((of_int ?t - ?p) + (?p - ?s * 10)) / 36000"
    by (simp add: whole minutes field_simps)
  then have close: "\<bar>?mag - \<bar>a\<bar>\<bar> \<le> 1 / 36000"
    using close_enough [OF e1 e2 e3] by (simp only:)
  have "\<bar>?v - a\<bar> \<le> 1 / 36000"
  proof (cases "a < 0")
    case True
    then have "?v - a = - (?mag - \<bar>a\<bar>)"
      by simp
    with close show ?thesis
      by (simp only: abs_minus_cancel)
  next
    case False
    then have "?v - a = ?mag - \<bar>a\<bar>"
      by simp
    with close show ?thesis
      by simp
  qed
  moreover have "decode (convert a) = Some ?v"
    by (rule decode_convert)
  moreover have "fst (convert a) \<longleftrightarrow> a < 0"
    by (simp add: convert_parts)
  ultimately show ?thesis
    by blast
qed

theorem convert_round_trip_witness:
  "(- 179.999 :: rat) \<le> - 0.1278 \<and> (- 0.1278 :: rat) \<le> 179.999 \<and>
   decode (convert (- 0.1278)) = Some (- (4601 / 36000)) \<and>
   (\<exists>v. decode (convert (- 0.1278)) = Some v \<and> \<bar>v - (- 0.1278)\<bar> \<le> 1 / 36000 \<and>
        (fst (convert (- 0.1278)) \<longleftrightarrow> (- 0.1278 :: rat) < 0))"
proof -
  have a: "(- 179.999 :: rat) \<le> - 0.1278" and b: "(- 0.1278 :: rat) \<le> 179.999"
    by simp_all
  have c: "decode (convert (- 0.1278)) = Some (- (4601 / 36000))"
    by code_simp
  from a b c convert_round_trip [OF a b] show ?thesis
    by (intro conjI)
qed

text \<open>
  The format \<^verbatim>\<open>:.0f\<close> sends a tie to the even neighbour, where the spec's rounding
  sends it away from zero.
\<close>

lemma format_ties_to_even:
  "fmt_0f (1 / 2) = ''0'' \<and> fmt_0f (5 / 2) = ''2'' \<and>
   round_half_away (1 / 2) = 1 \<and> round_half_away (5 / 2) = 3"
  by code_simp

text \<open>
  C6, as the spec states it: the seconds are scaled by 10 and rounded to the nearest
  integer. It fails at the angle of the float nearest to 0.04990277777777778, of 0
  degrees, 2 minutes and a little more than 59.65 seconds: ten times the seconds is more
  than 596.5 and its nearest integer is 597, under either rule for ties, but the float
  product of line 39 is the float 596.5, a tie that the format sends to the even 596.
\<close>

theorem tenths_not_nearest_counterexample:
  "signed_dms tie_angle = (1, 0, 2, 5965 / 100 + 1 / 175921860444160) \<and>
   convert tie_angle = (False, ''0/1,2/1,596/10'') \<and>
   fl ((5965 / 100 + 1 / 175921860444160) * 10) = 5965 / 10 \<and>
   \<bar>596 - (5965 / 100 + 1 / 175921860444160) * 10\<bar> = (1 / 2 + 1 / 17592186044416 :: rat) \<and>
   round_half_away ((5965 / 100 + 1 / 175921860444160) * 10) = 597 \<and>
   round_half_even ((5965 / 100 + 1 / 175921860444160) * 10) = 597"
  by code_simp

text \<open>
  C6, amended: degrees and minutes reach the format as whole numbers and are printed as
  they are, over the denominator 1; the rounding of the format, to the nearest integer
  with a tie to the even neighbour, never changes them. The seconds are multiplied by 10
  as floats, and the float product is printed rounded to the nearest integer, a tie going
  to the even neighbour, over the denominator 10. The printed integer is within 1/2 of
  the float product, and within 1/2 + 1/2^44 of ten times the seconds. The digits printed
  read back as the three integers.
\<close>

theorem convert_formats_float_product:
  "case signed_dms a of (sign, degrees, minutes, seconds) \<Rightarrow>
     \<exists>d m t.
       degrees = of_int d \<and> minutes = of_int m \<and> 0 \<le> d \<and> 0 \<le> m \<and> m < 60 \<and>
       t = round_half_even (fl (seconds * 10)) \<and> 0 \<le> t \<and>
       snd (convert a) =
         str_int d @ ''/1,'' @ str_int m @ ''/1,'' @ str_int t @ ''/10'' \<and>
       parse_nat (str_int d) = Some (nat d) \<and> parse_nat (str_int m) = Some (nat m) \<and>
       parse_nat (str_int t) = Some (nat t) \<and>
       \<bar>of_int t - fl (seconds * 10)\<bar> \<le> 1 / 2 \<and>
       \<bar>of_int t - seconds * 10\<bar> \<le> 1 / 2 + 1 / 2 ^ 44"
proof -
  let ?d = "whole_minutes a div 60" and ?m = "whole_minutes a mod 60" and ?t = "tenths a"
  let ?s = "odd_seconds a"
  have nonneg: "0 \<le> ?d" "0 \<le> ?m" "?m < 60" "0 \<le> ?t"
    by (simp_all add: whole_parts_nonneg tenths_nonneg)
  have out: "snd (convert a) =
      str_int ?d @ ''/1,'' @ str_int ?m @ ''/1,'' @ str_int ?t @ ''/10''"
    using nonneg by (simp add: convert_parts str_int_nonneg)
  have reread: "parse_nat (str_int ?d) = Some (nat ?d)" "parse_nat (str_int ?m) = Some (nat ?m)"
    "parse_nat (str_int ?t) = Some (nat ?t)"
    using nonneg by (simp_all add: str_int_nonneg parse_nat_decimal)
  have e3: "\<bar>of_int ?t - fl (?s * 10)\<bar> \<le> 1 / 2"
    unfolding tenths_def by (rule round_half_even_nearest)
  have "?s * 10 < 2 ^ 10" "0 \<le> ?s * 10"
    using seconds_range [of a] by simp_all
  then have e2: "\<bar>fl (?s * 10) - ?s * 10\<bar> \<le> 1 / 2 ^ 44"
    using fl_near [of "?s * 10" 10] by simp
  from e2 e3 have e: "\<bar>of_int ?t - ?s * 10\<bar> \<le> 1 / 2 + 1 / 2 ^ 44"
    by (rule within_half)
  have "?t = round_half_even (fl (?s * 10))"
    by (simp add: tenths_def)
  with nonneg out reread e3 e show ?thesis
    unfolding signed_dms_parts prod.case by blast
qed

end
